theory Spec2Isabelle
  imports Main "HOL-Library.AList"
begin

section \<open>Python values the code works on\<close>

text \<open>
  Texts are Python \<open>str\<close> values, modelled as \<open>string\<close> (a list of 8-bit characters).
  The classification and case functions of \<open>str\<close> are modelled on ASCII; a character
  outside ASCII is neither whitespace nor cased. An exception raised by the code is a
  value of \<open>py_error\<close>, and a function that can raise returns \<open>py_error + 'a\<close>.
\<close>

datatype value_error =
    Not_a_list
  | Turn_not_a_dictionary nat
  | Turn_missing_value nat

datatype py_error =
    KeyError string
  | IndexError
  | AttributeError
  | ValueError value_error
  | BackendError
  | FileNotFoundError
  | JSONDecodeError

definition nl :: char where
  "nl = CHR 0x0A"

definition py_isspace :: "char \<Rightarrow> bool" where
  \<comment> \<open>\<open>str.isspace\<close> and the \<open>\\s\<close> of \<open>re\<close>, on ASCII: TAB, LF, VT, FF, CR, FS, GS, RS, US, SPACE\<close>
  "py_isspace c = (let n = (of_char c :: nat) in (9 \<le> n \<and> n \<le> 13) \<or> (28 \<le> n \<and> n \<le> 32))"

definition py_islower :: "char \<Rightarrow> bool" where
  "py_islower c = (let n = (of_char c :: nat) in 97 \<le> n \<and> n \<le> 122)"

definition py_isupper :: "char \<Rightarrow> bool" where
  "py_isupper c = (let n = (of_char c :: nat) in 65 \<le> n \<and> n \<le> 90)"

definition upper_char :: "char \<Rightarrow> char" where
  "upper_char c = (if py_islower c then char_of ((of_char c :: nat) - 32) else c)"

definition lower_char :: "char \<Rightarrow> char" where
  "lower_char c = (if py_isupper c then char_of ((of_char c :: nat) + 32) else c)"

definition py_lower :: "string \<Rightarrow> string" where
  "py_lower s = map lower_char s"

definition py_strip :: "string \<Rightarrow> string" where
  \<comment> \<open>\<open>s.strip()\<close>\<close>
  "py_strip s = rev (dropWhile py_isspace (rev (dropWhile py_isspace s)))"

definition py_strip_chars :: "string \<Rightarrow> string \<Rightarrow> string" where
  \<comment> \<open>\<open>s.strip(chars)\<close>\<close>
  "py_strip_chars cs s =
     rev (dropWhile (\<lambda>c. c \<in> set cs) (rev (dropWhile (\<lambda>c. c \<in> set cs) s)))"

definition startswith :: "string \<Rightarrow> string \<Rightarrow> bool" where
  "startswith s p = (take (length p) s = p)"

definition endswith :: "string \<Rightarrow> string \<Rightarrow> bool" where
  "endswith s p = (length p \<le> length s \<and> drop (length s - length p) s = p)"

section \<open>The paraphrase engine: cleaning\<close>

subsection \<open>The three regular-expression substitutions\<close>

definition ci_prefix :: "string \<Rightarrow> string \<Rightarrow> bool" where
  \<comment> \<open>the literal \<open>kw\<close> matches at the start of \<open>t\<close> under \<open>re.IGNORECASE\<close>\<close>
  "ci_prefix kw t = (length kw \<le> length t \<and> py_lower (take (length kw) t) = py_lower kw)"

definition leadins :: "string list" where
  "leadins = [''Generated content:'', ''Verified content:'', ''Corrected version:'']"

definition strip_leadin :: "string \<Rightarrow> string" where
  \<comment> \<open>\<open>re.sub(r'^(Generated content:|Verified content:|Corrected version:)\\s*', '', text,
      flags=re.IGNORECASE)\<close>: \<open>^\<close> matches at position 0 only\<close>
  "strip_leadin t =
     (case find (\<lambda>kw. ci_prefix kw t) leadins of
        None \<Rightarrow> t
      | Some kw \<Rightarrow> dropWhile py_isspace (drop (length kw) t))"

definition meta_tails :: "string list" where
  "meta_tails = [''Verification result:'', ''Reference Command:'', ''Note:'', ''Verified Response:'']"

definition tail_ok :: "string \<Rightarrow> bool" where
  \<comment> \<open>\<open>.*$\<close> matches \<open>r\<close>: \<open>.\<close> is any character but a newline, and \<open>$\<close> is the end of the
      text or the place before a newline that ends the text\<close>
  "tail_ok r = (nl \<notin> set r \<or> (r \<noteq> [] \<and> last r = nl \<and> nl \<notin> set (butlast r)))"

definition meta_match :: "string \<Rightarrow> bool" where
  \<comment> \<open>\<open>\\s*(Verification result:.*|Reference Command:.*|Note:.*|Verified Response:.*)$\<close>
      matches at the start of \<open>t\<close>\<close>
  "meta_match t =
     (let u = dropWhile py_isspace t
      in list_ex (\<lambda>kw. ci_prefix kw u \<and> tail_ok (drop (length kw) u)) meta_tails)"

fun strip_meta :: "string \<Rightarrow> string" where
  \<comment> \<open>\<open>re.sub\<close> of the pattern above by the empty text: the leftmost match is removed;
      it reaches to \<open>$\<close>, so a newline that ends the text stays and nothing matches after it\<close>
  "strip_meta [] = []"
| "strip_meta (c # cs) =
     (if meta_match (c # cs) then (if last (c # cs) = nl then [nl] else [])
      else c # strip_meta cs)"

definition is_ph_char :: "char \<Rightarrow> bool" where
  \<comment> \<open>the class \<open>[A-Za-z_]\<close>\<close>
  "is_ph_char c = (py_islower c \<or> py_isupper c \<or> c = CHR ''_'')"

definition ph_match_len :: "string \<Rightarrow> nat option" where
  \<comment> \<open>length of the match of \<open>___[A-Za-z_]+___\<close> at the start of \<open>t\<close>: the greedy \<open>+\<close> gives
      back characters until three underscores follow\<close>
  "ph_match_len t =
     (if take 3 t = ''___'' then
        (let r = takeWhile is_ph_char (drop 3 t)
         in case find (\<lambda>m. take 3 (drop m r) = ''___'') (rev [1 ..< length r - 2]) of
              None \<Rightarrow> None
            | Some m \<Rightarrow> Some (m + 6))
      else None)"

lemma ph_match_len_pos: "ph_match_len t = Some n \<Longrightarrow> 0 < n"
  by (auto simp: ph_match_len_def Let_def split: if_splits option.splits)

function remove_placeholders :: "string \<Rightarrow> string" where
  \<comment> \<open>\<open>re.sub(r'___[A-Za-z_]+___', '', text)\<close>: every match, left to right, without overlap\<close>
  "remove_placeholders t =
     (case t of
        [] \<Rightarrow> []
      | c # cs \<Rightarrow>
          (case ph_match_len t of
             Some n \<Rightarrow> remove_placeholders (drop n t)
           | None \<Rightarrow> c # remove_placeholders cs))"
  by pat_completeness auto
termination
  by (relation "measure length") (auto dest: ph_match_len_pos)

subsection \<open>clean_generated_content\<close>

definition capitalize_first :: "string \<Rightarrow> string" where
  \<comment> \<open>\<open>if text and text[0].islower(): text = text[0].upper() + text[1:]\<close>\<close>
  "capitalize_first t =
     (case t of [] \<Rightarrow> [] | c # cs \<Rightarrow> (if py_islower c then upper_char c # cs else c # cs))"

definition py_last :: "string \<Rightarrow> py_error + char" where
  \<comment> \<open>\<open>text[-1]\<close>\<close>
  "py_last t = (if t = [] then Inl IndexError else Inr (last t))"

definition ensure_punctuation :: "string \<Rightarrow> bool \<Rightarrow> py_error + string" where
  \<comment> \<open>the \<open>if is_question and not text.endswith('?') ... elif not is_question and
      not text[-1] in '.!?'\<close> of the source; the \<open>elif\<close> condition reads \<open>text[-1]\<close>
      whenever \<open>is_question\<close> is false\<close>
  "ensure_punctuation t is_question =
     (if is_question \<and> \<not> endswith t ''?'' then Inr (t @ ''?'')
      else if \<not> is_question then
        (case py_last t of
           Inl e \<Rightarrow> Inl e
         | Inr c \<Rightarrow> (if c \<notin> set ''.!?'' then Inr (t @ ''.'') else Inr t))
      else Inr t)"

definition clean_generated_content :: "string \<Rightarrow> bool \<Rightarrow> py_error + string" where
  "clean_generated_content text is_question =
     (let t1 = strip_leadin text;
          t2 = strip_meta t1;
          t3 = remove_placeholders t2;
          t4 = py_strip_chars [CHR 0x22, CHR 0x27] t3;
          t5 = py_strip t4;
          t6 = capitalize_first t5
      in ensure_punctuation t6 is_question)"

section \<open>The paraphrase engine: backend calls\<close>

text \<open>
  A turn is a Python dictionary from texts to texts, kept as an association list in
  insertion order; \<open>d[k]\<close> raises KeyError on a missing key.
\<close>

type_synonym pydict = "(string \<times> string) list"
type_synonym turn = pydict
type_synonym conversation = "turn list"

definition getitem :: "pydict \<Rightarrow> string \<Rightarrow> py_error + string" where
  "getitem d k = (case map_of d k of None \<Rightarrow> Inl (KeyError k) | Some v \<Rightarrow> Inr v)"

text \<open>
  The chat backend is outside the code. A call sends a system and a user message; the
  two prompts are fixed templates, so a message is modelled by the template and the values
  interpolated into it. The backend may keep state between calls and may fail: a call
  returns \<open>response['message']['content']\<close>, or the exception raised by the call or by
  reading the response.
\<close>

datatype prompt =
    Paraphrase_system
  | Paraphrase_user string pydict bool
  | Verify_system
  | Verify_user string string pydict bool

type_synonym message = "string \<times> prompt"
type_synonym 's backend = "'s \<Rightarrow> message list \<Rightarrow> (py_error + string) \<times> 's"

definition question_words :: "string list" where
  "question_words = [''what'', ''when'', ''where'', ''who'', ''why'', ''how'', ''can'', ''could'',
     ''would'', ''should'', ''is'', ''are'', ''do'', ''does'', ''will'', ''may'']"

definition is_question :: "string \<Rightarrow> bool" where
  \<comment> \<open>\<open>_is_question\<close>\<close>
  "is_question text =
     (let t = py_lower (py_strip text)
      in endswith t ''?'' \<or> list_ex (startswith t) question_words)"

definition verify_paraphrase ::
  "'s backend \<Rightarrow> 's \<Rightarrow> string \<Rightarrow> string \<Rightarrow> pydict \<Rightarrow> bool \<Rightarrow> string \<times> 's" where
  "verify_paraphrase chat s original paraphrased reference question =
     (case chat s [(''system'', Verify_system),
                   (''user'', Verify_user original paraphrased reference question)] of
        (Inl e, s') \<Rightarrow> (paraphrased, s')
      | (Inr content, s') \<Rightarrow>
          (let verified_text = py_strip content
           in (if question \<and> \<not> endswith verified_text ''?'' then verified_text @ ''?''
               else if \<not> question \<and> endswith verified_text ''?'' then butlast verified_text @ ''.''
               else verified_text, s')))"

definition paraphrase_text ::
  "'s backend \<Rightarrow> 's \<Rightarrow> string \<Rightarrow> pydict \<Rightarrow> bool option \<Rightarrow> string \<times> 's" where
  \<comment> \<open>the whole of the \<open>try\<close> block falls back to \<open>text\<close>: a failed generation call and an
      exception raised by the cleaning step alike\<close>
  "paraphrase_text chat s text reference_values question_arg =
     (if py_strip text = [] then (text, s)
      else
        (let question = (case question_arg of None \<Rightarrow> is_question text | Some b \<Rightarrow> b)
         in case chat s [(''system'', Paraphrase_system),
                         (''user'', Paraphrase_user text reference_values question)] of
              (Inl e, s1) \<Rightarrow> (text, s1)
            | (Inr content, s1) \<Rightarrow>
                (let paraphrased_text = py_strip content
                 in case verify_paraphrase chat s1 text paraphrased_text reference_values question of
                      (verified_text, s2) \<Rightarrow>
                        (case clean_generated_content verified_text question of
                           Inl e \<Rightarrow> (text, s2)
                         | Inr cleaned_text \<Rightarrow> (cleaned_text, s2)))))"

section \<open>The dataset expander\<close>

fun extract_reference_values ::
  "string list \<Rightarrow> pydict \<Rightarrow> conversation \<Rightarrow> py_error + pydict" where
  \<comment> \<open>\<open>for turn in conversation: if turn['from'] in reference_fields:
      reference_values[turn['from']] = turn['value']\<close>\<close>
  "extract_reference_values reference_fields acc [] = Inr acc"
| "extract_reference_values reference_fields acc (t # ts) =
     (case getitem t ''from'' of
        Inl e \<Rightarrow> Inl e
      | Inr source \<Rightarrow>
          (if source \<in> set reference_fields then
             (case getitem t ''value'' of
                Inl e \<Rightarrow> Inl e
              | Inr v \<Rightarrow> extract_reference_values reference_fields (AList.update source v acc) ts)
           else extract_reference_values reference_fields acc ts))"

definition static_get :: "(string \<times> bool) list \<Rightarrow> string \<Rightarrow> bool" where
  \<comment> \<open>\<open>static_fields.get(source, False)\<close>\<close>
  "static_get static_fields source =
     (case map_of static_fields source of None \<Rightarrow> False | Some b \<Rightarrow> b)"

definition expand_turn ::
  "'s backend \<Rightarrow> 's \<Rightarrow> (string \<times> bool) list \<Rightarrow> pydict \<Rightarrow> turn \<Rightarrow> (py_error + turn) \<times> 's" where
  \<comment> \<open>the body of the loop over the turns\<close>
  "expand_turn chat s static_fields reference_values t =
     (case getitem t ''from'' of
        Inl e \<Rightarrow> (Inl e, s)
      | Inr source \<Rightarrow>
          (if static_get static_fields source then (Inr t, s)
           else
             (case getitem t ''value'' of
                Inl e \<Rightarrow> (Inl e, s)
              | Inr original_value \<Rightarrow>
                  (case paraphrase_text chat s original_value reference_values
                          (Some (is_question original_value)) of
                     (paraphrased_value, s') \<Rightarrow>
                       (Inr [(''from'', source), (''value'', paraphrased_value)], s')))))"

fun expand_turns ::
  "'s backend \<Rightarrow> 's \<Rightarrow> (string \<times> bool) list \<Rightarrow> pydict \<Rightarrow> turn list
     \<Rightarrow> (py_error + conversation) \<times> 's" where
  "expand_turns chat s static_fields reference_values [] = (Inr [], s)"
| "expand_turns chat s static_fields reference_values (t # ts) =
     (case expand_turn chat s static_fields reference_values t of
        (Inl e, s1) \<Rightarrow> (Inl e, s1)
      | (Inr t', s1) \<Rightarrow>
          (case expand_turns chat s1 static_fields reference_values ts of
             (Inl e, s2) \<Rightarrow> (Inl e, s2)
           | (Inr ts', s2) \<Rightarrow> (Inr (t' # ts'), s2)))"

definition expand_variation ::
  "'s backend \<Rightarrow> 's \<Rightarrow> (string \<times> bool) list \<Rightarrow> string list \<Rightarrow> conversation
     \<Rightarrow> (py_error + conversation) \<times> 's" where
  \<comment> \<open>the body of the loop \<open>for j in range(expansion_factor)\<close>: one expanded conversation\<close>
  "expand_variation chat s static_fields reference_fields conv =
     (case extract_reference_values reference_fields [] conv of
        Inl e \<Rightarrow> (Inl e, s)
      | Inr reference_values \<Rightarrow> expand_turns chat s static_fields reference_values conv)"

fun expand_repeat ::
  "'s backend \<Rightarrow> 's \<Rightarrow> (string \<times> bool) list \<Rightarrow> string list \<Rightarrow> conversation \<Rightarrow> nat
     \<Rightarrow> (py_error + conversation list) \<times> 's" where
  "expand_repeat chat s static_fields reference_fields conv 0 = (Inr [], s)"
| "expand_repeat chat s static_fields reference_fields conv (Suc n) =
     (case expand_variation chat s static_fields reference_fields conv of
        (Inl e, s1) \<Rightarrow> (Inl e, s1)
      | (Inr c, s1) \<Rightarrow>
          (case expand_repeat chat s1 static_fields reference_fields conv n of
             (Inl e, s2) \<Rightarrow> (Inl e, s2)
           | (Inr cs, s2) \<Rightarrow> (Inr (c # cs), s2)))"

fun expand_conversations ::
  "'s backend \<Rightarrow> 's \<Rightarrow> (string \<times> bool) list \<Rightarrow> string list \<Rightarrow> nat \<Rightarrow> conversation list
     \<Rightarrow> (py_error + conversation list) \<times> 's" where
  "expand_conversations chat s static_fields reference_fields n [] = (Inr [], s)"
| "expand_conversations chat s static_fields reference_fields n (conv # convs) =
     (case expand_repeat chat s static_fields reference_fields conv n of
        (Inl e, s1) \<Rightarrow> (Inl e, s1)
      | (Inr cs, s1) \<Rightarrow>
          (case expand_conversations chat s1 static_fields reference_fields n convs of
             (Inl e, s2) \<Rightarrow> (Inl e, s2)
           | (Inr rest, s2) \<Rightarrow> (Inr (cs @ rest), s2)))"

definition static_fields_or_default :: "(string \<times> bool) list option \<Rightarrow> (string \<times> bool) list" where
  \<comment> \<open>\<open>if static_fields is None: static_fields = {'human': False, 'gpt': False}\<close>\<close>
  "static_fields_or_default static_fields =
     (case static_fields of None \<Rightarrow> [(''human'', False), (''gpt'', False)] | Some sf \<Rightarrow> sf)"

definition reference_fields_or_default :: "string list option \<Rightarrow> string list" where
  \<comment> \<open>\<open>if reference_fields is None: reference_fields = []\<close>\<close>
  "reference_fields_or_default reference_fields =
     (case reference_fields of None \<Rightarrow> [] | Some rf \<Rightarrow> rf)"

definition expand_conversation_dataset ::
  "'s backend \<Rightarrow> 's \<Rightarrow> conversation list \<Rightarrow> int \<Rightarrow> (string \<times> bool) list option
     \<Rightarrow> string list option \<Rightarrow> (py_error + conversation list) \<times> 's" where
  \<comment> \<open>\<open>range(expansion_factor)\<close> has \<open>nat expansion_factor\<close> elements\<close>
  "expand_conversation_dataset chat s conversations expansion_factor static_fields reference_fields =
     expand_conversations chat s (static_fields_or_default static_fields)
       (reference_fields_or_default reference_fields) (nat expansion_factor) conversations"

definition canonical_turn :: "turn \<Rightarrow> bool" where
  \<comment> \<open>the input type of the expander: each turn is a dict with 'from' and 'value' keys\<close>
  "canonical_turn t = (map_of t ''from'' \<noteq> None \<and> map_of t ''value'' \<noteq> None)"

text \<open>
  Test doubles for the backend: a stub that answers every call with a fixed text and one
  that raises on every call; and the batch of the end-to-end scenario.
\<close>

definition stub_backend :: "string \<Rightarrow> unit backend" where
  "stub_backend reply s msgs = (Inr reply, s)"

definition failing_backend :: "unit backend" where
  "failing_backend s msgs = (Inl BackendError, s)"

definition example_batch :: "conversation list" where
  "example_batch =
     [[[(''from'', ''human''), (''value'', ''What is X?'')],
       [(''from'', ''gpt''), (''value'', ''X is Y.'')]]]"

section \<open>Persistence: the paired-turn view\<close>

record qa_row =
  instruction :: string
  input_text :: string
  output_text :: string

definition fixed_instruction :: string where
  "fixed_instruction = ''Answer the user'' @ [CHR 0x27] @ ''s question about the research paper.''"

definition pair_indices :: "nat \<Rightarrow> nat list" where
  \<comment> \<open>\<open>range(0, len(conversation)-1, 2)\<close>; the range is empty when the length is 0\<close>
  "pair_indices n = filter even [0 ..< n - 1]"

definition pair_row :: "conversation \<Rightarrow> nat \<Rightarrow> py_error + qa_row option" where
  \<comment> \<open>the body of the loop over \<open>i\<close>; \<open>and\<close> reads the second role only when the first is
      \<open>human\<close>\<close>
  "pair_row conv i =
     (if i + 1 < length conv then
        (case getitem (conv ! i) ''from'' of
           Inl e \<Rightarrow> Inl e
         | Inr f1 \<Rightarrow>
             (if f1 = ''human'' then
                (case getitem (conv ! (i + 1)) ''from'' of
                   Inl e \<Rightarrow> Inl e
                 | Inr f2 \<Rightarrow>
                     (if f2 = ''gpt'' then
                        (case getitem (conv ! i) ''value'' of
                           Inl e \<Rightarrow> Inl e
                         | Inr q \<Rightarrow>
                             (case getitem (conv ! (i + 1)) ''value'' of
                                Inl e \<Rightarrow> Inl e
                              | Inr a \<Rightarrow>
                                  Inr (Some \<lparr>instruction = fixed_instruction,
                                             input_text = q, output_text = a\<rparr>)))
                      else Inr None))
              else Inr None))
      else Inr None)"

fun pair_rows :: "conversation \<Rightarrow> nat list \<Rightarrow> py_error + qa_row list" where
  "pair_rows conv [] = Inr []"
| "pair_rows conv (i # is) =
     (case pair_row conv i of
        Inl e \<Rightarrow> Inl e
      | Inr r \<Rightarrow>
          (case pair_rows conv is of
             Inl e \<Rightarrow> Inl e
           | Inr rs \<Rightarrow> Inr ((case r of None \<Rightarrow> [] | Some x \<Rightarrow> [x]) @ rs)))"

fun convert_conversations_to_dataframe :: "conversation list \<Rightarrow> py_error + qa_row list" where
  "convert_conversations_to_dataframe [] = Inr []"
| "convert_conversations_to_dataframe (conv # convs) =
     (case pair_rows conv (pair_indices (length conv)) of
        Inl e \<Rightarrow> Inl e
      | Inr rs \<Rightarrow>
          (case convert_conversations_to_dataframe convs of
             Inl e \<Rightarrow> Inl e
           | Inr rest \<Rightarrow> Inr (rs @ rest)))"

text \<open>
  The paired view in the words of the specification: the conversation is scanned in
  non-overlapping adjacent pairs, and a pair gives a row when its first role is \<open>human\<close>
  and its second is \<open>gpt\<close>.
\<close>

fun adjacent_pairs :: "'a list \<Rightarrow> ('a \<times> 'a) list" where
  "adjacent_pairs (a # b # rest) = (a, b) # adjacent_pairs rest"
| "adjacent_pairs _ = []"

definition text_of :: "turn \<Rightarrow> string" where
  "text_of t = (case map_of t ''value'' of None \<Rightarrow> [] | Some v \<Rightarrow> v)"

definition paired_view :: "conversation \<Rightarrow> qa_row list" where
  "paired_view conv =
     map (\<lambda>(a, b). \<lparr>instruction = fixed_instruction, input_text = text_of a, output_text = text_of b\<rparr>)
       (filter (\<lambda>(a, b). map_of a ''from'' = Some ''human'' \<and> map_of b ''from'' = Some ''gpt'')
          (adjacent_pairs conv))"


definition trailing_turn_example :: conversation where
  "trailing_turn_example =
     [[(''from'', ''human''), (''value'', ''Q1'')],
      [(''from'', ''gpt''), (''value'', ''A1'')],
      [(''from'', ''human''), (''value'', ''Q2'')]]"

section \<open>The conversation format validator\<close>

text \<open>
  The validator receives parsed JSON: a value is a text, a list, a dictionary from texts
  to values, or something else (a number, a boolean, \<open>None\<close>). The validator changes the
  turns in place; the model returns the conversation as it is after the call.
\<close>

datatype pyval =
    PStr string
  | PList "pyval list"
  | PDict "(string \<times> pyval) list"
  | POther

definition positional_role :: "nat \<Rightarrow> string" where
  \<comment> \<open>\<open>'human' if i % 2 == 0 else 'gpt'\<close>\<close>
  "positional_role i = (if i mod 2 = 0 then ''human'' else ''gpt'')"

definition alias_role :: "pyval \<Rightarrow> string" where
  \<comment> \<open>\<open>'human' if turn['role'] in ['user', 'human'] else 'gpt'\<close>\<close>
  "alias_role r = (if r \<in> set [PStr ''user'', PStr ''human''] then ''human'' else ''gpt'')"

definition normalize_from_key :: "nat \<Rightarrow> (string \<times> pyval) list \<Rightarrow> (string \<times> pyval) list" where
  \<comment> \<open>the block \<open>if 'from' not in turn: ...\<close>\<close>
  "normalize_from_key i d =
     (if map_of d ''from'' = None then
        (case map_of d ''role'' of
           Some r \<Rightarrow> AList.update ''from'' (PStr (alias_role r)) d
         | None \<Rightarrow>
             (case map_of d ''speaker'' of
                Some sp \<Rightarrow> AList.update ''from'' (PStr (alias_role sp)) d
              | None \<Rightarrow> AList.update ''from'' (PStr (positional_role i)) d))
      else d)"

fun first_alias :: "(string \<times> pyval) list \<Rightarrow> string list \<Rightarrow> pyval option" where
  "first_alias d [] = None"
| "first_alias d (k # ks) = (case map_of d k of Some v \<Rightarrow> Some v | None \<Rightarrow> first_alias d ks)"

definition normalize_value_key ::
  "nat \<Rightarrow> (string \<times> pyval) list \<Rightarrow> py_error + (string \<times> pyval) list" where
  \<comment> \<open>the block \<open>if 'value' not in turn: for key in ['content', 'message', 'text']: ...
      else: raise ValueError\<close>\<close>
  "normalize_value_key i d =
     (if map_of d ''value'' = None then
        (case first_alias d [''content'', ''message'', ''text''] of
           Some v \<Rightarrow> Inr (AList.update ''value'' v d)
         | None \<Rightarrow> Inl (ValueError (Turn_missing_value i)))
      else Inr d)"

definition normalize_from_value :: "(string \<times> pyval) list \<Rightarrow> py_error + (string \<times> pyval) list" where
  \<comment> \<open>the block \<open>if turn['from'].lower() in [...] ... elif ...\<close>; \<open>.lower()\<close> of a value that
      is not a text raises AttributeError\<close>
  "normalize_from_value d =
     (case map_of d ''from'' of
        None \<Rightarrow> Inl (KeyError ''from'')
      | Some (PStr f) \<Rightarrow>
          (if py_lower f \<in> set [''assistant'', ''ai'', ''bot'', ''claude'']
             then Inr (AList.update ''from'' (PStr ''gpt'') d)
           else if py_lower f \<in> set [''user'', ''human'', ''person'']
             then Inr (AList.update ''from'' (PStr ''human'') d)
           else Inr d)
      | Some _ \<Rightarrow> Inl AttributeError)"

definition ensure_role :: "nat \<Rightarrow> (string \<times> pyval) list \<Rightarrow> (string \<times> pyval) list" where
  \<comment> \<open>\<open>if turn['from'] not in ['human', 'gpt']: turn['from'] = 'human' if i % 2 == 0 else 'gpt'\<close>\<close>
  "ensure_role i d =
     (if map_of d ''from'' \<notin> set [Some (PStr ''human''), Some (PStr ''gpt'')]
        then AList.update ''from'' (PStr (positional_role i)) d
      else d)"

definition validate_turn :: "nat \<Rightarrow> pyval \<Rightarrow> py_error + pyval" where
  "validate_turn i t =
     (case t of
        PDict d \<Rightarrow>
          (case normalize_value_key i (normalize_from_key i d) of
             Inl e \<Rightarrow> Inl e
           | Inr d2 \<Rightarrow>
               (case normalize_from_value d2 of
                  Inl e \<Rightarrow> Inl e
                | Inr d3 \<Rightarrow> Inr (PDict (ensure_role i d3))))
      | _ \<Rightarrow> Inl (ValueError (Turn_not_a_dictionary i)))"

fun validate_turns :: "nat \<Rightarrow> pyval list \<Rightarrow> py_error + pyval list" where
  "validate_turns i [] = Inr []"
| "validate_turns i (t # ts) =
     (case validate_turn i t of
        Inl e \<Rightarrow> Inl e
      | Inr t' \<Rightarrow>
          (case validate_turns (Suc i) ts of
             Inl e \<Rightarrow> Inl e
           | Inr ts' \<Rightarrow> Inr (t' # ts')))"

definition validate_conversation_format :: "pyval \<Rightarrow> py_error + pyval" where
  \<comment> \<open>\<open>_validate_conversation_format\<close>\<close>
  "validate_conversation_format conversation =
     (case conversation of
        PList ts \<Rightarrow> (case validate_turns 0 ts of Inl e \<Rightarrow> Inl e | Inr ts' \<Rightarrow> Inr (PList ts'))
      | _ \<Rightarrow> Inl (ValueError Not_a_list))"



text \<open>
  The role that the last two steps of the validator give to a turn whose key 'from' holds
  the text \<open>f\<close>; and example conversations.
\<close>

definition alias_example :: pyval where
  "alias_example = PList [PDict [(''role'', PStr ''assistant''), (''content'', PStr ''X'')]]"

definition resolved_role :: "nat \<Rightarrow> string \<Rightarrow> string" where
  "resolved_role i f =
     (if py_lower f \<in> set [''assistant'', ''ai'', ''bot'', ''claude''] then ''gpt''
      else if py_lower f \<in> set [''user'', ''human'', ''person''] then ''human''
      else if f = ''gpt'' then ''gpt''
      else positional_role i)"

definition mixed_example :: "pyval list" where
  "mixed_example =
     [PDict [(''from'', PStr ''Person''), (''value'', PStr ''x'')],
      PDict [(''from'', PStr ''narrator''), (''text'', PStr ''y'')],
      PDict [(''message'', PStr ''m'')]]"

definition mixed_example_validated_turns :: "pyval list" where
  "mixed_example_validated_turns =
     [PDict [(''from'', PStr ''human''), (''value'', PStr ''x'')],
      PDict [(''from'', PStr ''gpt''), (''text'', PStr ''y''), (''value'', PStr ''y'')],
      PDict [(''message'', PStr ''m''), (''from'', PStr ''human''), (''value'', PStr ''m'')]]"

section \<open>Persistence: line-delimited JSON\<close>

text \<open>
  The writer and the reader rest on \<open>json.dumps\<close> and \<open>json.loads\<close> of the Python
  library, modelled here for the values the code passes to them. A file system is a map
  from paths to the text of the file.
\<close>

definition dquote :: char where "dquote = CHR 0x22"

definition backslash :: char where "backslash = CHR 0x5C"

definition hexdigit :: "nat \<Rightarrow> char" where
  "hexdigit d = (if d < 10 then char_of (48 + d) else char_of (87 + d))"

definition escape_char :: "char \<Rightarrow> string" where
  \<comment> \<open>one character of \<open>json.dumps\<close> with the default \<open>ensure_ascii=True\<close>: the short
      escapes, the printable ASCII characters as they are, \<open>\\u00xx\<close> (lower-case hex) otherwise\<close>
  "escape_char c =
     (let n = (of_char c :: nat)
      in if c = dquote then [backslash, dquote]
         else if c = backslash then [backslash, backslash]
         else if n = 10 then [backslash, CHR ''n'']
         else if n = 13 then [backslash, CHR ''r'']
         else if n = 9 then [backslash, CHR ''t'']
         else if n = 8 then [backslash, CHR ''b'']
         else if n = 12 then [backslash, CHR ''f'']
         else if 32 \<le> n \<and> n \<le> 126 then [c]
         else [backslash, CHR ''u'', CHR ''0'', CHR ''0'', hexdigit (n div 16), hexdigit (n mod 16)])"

definition encode_string :: "string \<Rightarrow> string" where
  "encode_string t = dquote # concat (map escape_char t) @ [dquote]"

fun join :: "string \<Rightarrow> string list \<Rightarrow> string" where
  "join sep [] = []"
| "join sep [x] = x"
| "join sep (x # y # ys) = x @ sep @ join sep (y # ys)"

definition encode_member :: "string \<times> string \<Rightarrow> string" where
  "encode_member m = (case m of (k, v) \<Rightarrow> encode_string k @ '': '' @ encode_string v)"

definition dumps_turn :: "turn \<Rightarrow> string" where
  "dumps_turn t = ''{'' @ join '', '' (map encode_member t) @ ''}''"


definition is_json_ws :: "char \<Rightarrow> bool" where
  \<comment> \<open>the whitespace of the JSON scanner: space, TAB, LF, CR\<close>
  "is_json_ws c = (c \<in> set [CHR '' '', CHR 0x09, CHR 0x0A, CHR 0x0D])"

definition skip_ws :: "string \<Rightarrow> string" where
  "skip_ws s = dropWhile is_json_ws s"







































section \<open>The conversation generator: chunk_text\<close>

text \<open>
  Indices are Python integers. A negative index in a slice or in \<open>str.rfind\<close> counts from
  the end of the text, and an index beyond either end is clipped.
\<close>

definition py_index :: "int \<Rightarrow> nat \<Rightarrow> nat" where
  "py_index i n = (if i < 0 then nat (max 0 (i + int n)) else min (nat i) n)"

definition py_slice :: "string \<Rightarrow> int \<Rightarrow> int \<Rightarrow> string" where
  "py_slice s a b =
     (let lo = py_index a (length s); hi = py_index b (length s) in take (hi - lo) (drop lo s))"

definition py_slice_from :: "string \<Rightarrow> int \<Rightarrow> string" where
  "py_slice_from s a = drop (py_index a (length s)) s"

fun rfind_down :: "string \<Rightarrow> string \<Rightarrow> nat \<Rightarrow> nat \<Rightarrow> int" where
  "rfind_down s sub lo 0 = -1"
| "rfind_down s sub lo (Suc k) =
     (if take (length sub) (drop (lo + k) s) = sub then int (lo + k) else rfind_down s sub lo k)"

definition py_rfind :: "string \<Rightarrow> string \<Rightarrow> int \<Rightarrow> int \<Rightarrow> int" where
  "py_rfind s sub a b =
     (let lo = py_index a (length s); hi = py_index b (length s)
      in if hi < lo + length sub then -1 else rfind_down s sub lo (hi - length sub - lo + 1))"

definition boundaries :: "string list" where
  "boundaries = [[nl, nl], [nl], ''. '', ''? '', ''! '']"

fun find_boundary :: "string \<Rightarrow> int \<Rightarrow> int \<Rightarrow> string list \<Rightarrow> int" where
  "find_boundary content start end [] = end"
| "find_boundary content start end (b # bs) =
     (let boundary_pos = py_rfind content b start end
      in if boundary_pos > start then boundary_pos + int (length b)
         else find_boundary content start end bs)"

partial_function (option) chunk_loop ::
  "string \<Rightarrow> int \<Rightarrow> int \<Rightarrow> int \<Rightarrow> string list \<Rightarrow> string list option" where
  "chunk_loop content chunk_size overlap start chunks =
     (if start < int (length content) then
        (let end = start + chunk_size
         in if end \<ge> int (length content) then Some (chunks @ [py_slice_from content start])
            else (let end' = find_boundary content start end boundaries
                  in chunk_loop content chunk_size overlap (end' - overlap)
                       (chunks @ [py_slice content start end'])))
      else Some chunks)"

definition chunk_text :: "string \<Rightarrow> int \<Rightarrow> int \<Rightarrow> string list option" where
  "chunk_text content chunk_size overlap =
     (if int (length content) \<le> chunk_size then Some [content]
      else chunk_loop content chunk_size overlap 0 [])"

declare chunk_loop.simps [code]

text \<open>A one-letter title, a blank line and a paragraph of 2000 letters.\<close>

definition titled_text :: string where
  "titled_text = CHR ''T'' # nl # nl # replicate 2000 (CHR ''x'')"

section \<open>Properties\<close>

text \<open>
  Claim C9 says that \<open>clean_generated_content\<close> returns a text for every input and both
  values of \<open>is_question\<close>, and that the punctuation step for statements never indexes
  into an empty text. On the empty text with \<open>is_question\<close> false the code evaluates
  \<open>text[-1]\<close> and raises IndexError.
\<close>

theorem clean_generated_content_empty_statement:
  "clean_generated_content '''' False = Inl IndexError"
  by (simp add: clean_generated_content_def strip_leadin_def leadins_def ci_prefix_def
      py_strip_chars_def py_strip_def capitalize_first_def ensure_punctuation_def py_last_def)

subsection \<open>The dataset expander\<close>

lemma getitem_canonical:
  "canonical_turn t \<Longrightarrow> \<exists>src v. getitem t ''from'' = Inr src \<and> getitem t ''value'' = Inr v
      \<and> map_of t ''from'' = Some src \<and> map_of t ''value'' = Some v"
  by (auto simp: canonical_turn_def getitem_def)

lemma expand_turn_cases:
  assumes "canonical_turn t"
  obtains (static) src where "map_of t ''from'' = Some src" "static_get sf src"
      "expand_turn chat s sf refs t = (Inr t, s)"
  | (dynamic) src v where "map_of t ''from'' = Some src" "map_of t ''value'' = Some v"
      "\<not> static_get sf src"
      "expand_turn chat s sf refs t =
         (Inr [(''from'', src), (''value'', fst (paraphrase_text chat s v refs (Some (is_question v))))],
          snd (paraphrase_text chat s v refs (Some (is_question v))))"
proof -
  from getitem_canonical[OF assms] obtain src v where
    g: "getitem t ''from'' = Inr src" "getitem t ''value'' = Inr v"
       "map_of t ''from'' = Some src" "map_of t ''value'' = Some v" by blast
  show thesis
  proof (cases "static_get sf src")
    case True
    with g have "expand_turn chat s sf refs t = (Inr t, s)" by (simp add: expand_turn_def)
    with g True show thesis by (rule_tac static) 
  next
    case False
    with g have "expand_turn chat s sf refs t =
         (Inr [(''from'', src), (''value'', fst (paraphrase_text chat s v refs (Some (is_question v))))],
          snd (paraphrase_text chat s v refs (Some (is_question v))))"
      by (simp add: expand_turn_def split: prod.splits)
    with g False show thesis by (rule_tac dynamic)
  qed
qed

lemma expand_turn_ok:
  assumes "canonical_turn t"
  shows "\<exists>t' s'. expand_turn chat s sf refs t = (Inr t', s')"
  using assms by (rule expand_turn_cases[where chat = chat and s = s and sf = sf and refs = refs]) auto

lemma expand_turns_ok:
  "list_all canonical_turn ts \<Longrightarrow> \<exists>out s'. expand_turns chat s sf refs ts = (Inr out, s')"
proof (induction ts arbitrary: s)
  case Nil
  then show ?case by simp
next
  case (Cons t ts)
  then obtain t' s1 where 1: "expand_turn chat s sf refs t = (Inr t', s1)"
    using expand_turn_ok[of t chat s sf refs] by auto
  from Cons obtain out s2 where 2: "expand_turns chat s1 sf refs ts = (Inr out, s2)"
    by fastforce
  from 1 2 show ?case by simp
qed

lemma expand_turns_nth:
  "expand_turns chat s sf refs ts = (Inr out, s') \<Longrightarrow>
     length out = length ts \<and>
     (\<forall>k<length ts. \<exists>s1 s2. expand_turn chat s1 sf refs (ts ! k) = (Inr (out ! k), s2))"
proof (induction ts arbitrary: s out)
  case Nil
  then show ?case by simp
next
  case (Cons t ts)
  from Cons.prems obtain t' s1 rest where
    1: "expand_turn chat s sf refs t = (Inr t', s1)" and
    2: "expand_turns chat s1 sf refs ts = (Inr rest, s')" and
    3: "out = t' # rest"
    by (auto split: prod.splits sum.splits)
  from Cons.IH[OF 2] have len: "length rest = length ts"
    and nth: "\<And>k. k < length ts \<Longrightarrow> \<exists>s1 s2. expand_turn chat s1 sf refs (ts ! k) = (Inr (rest ! k), s2)"
    by auto
  show ?case
  proof (intro conjI allI impI)
    show "length out = length (t # ts)" using 3 len by simp
  next
    fix k assume "k < length (t # ts)"
    then show "\<exists>s1 s2. expand_turn chat s1 sf refs ((t # ts) ! k) = (Inr (out ! k), s2)"
      using 1 3 nth by (cases k) auto
  qed
qed

lemma extract_reference_values_ok:
  "list_all canonical_turn ts \<Longrightarrow> \<exists>refs. extract_reference_values rf acc ts = Inr refs"
proof (induction ts arbitrary: acc)
  case Nil
  then show ?case by simp
next
  case (Cons t ts)
  then obtain src v where "getitem t ''from'' = Inr src" "getitem t ''value'' = Inr v"
    using getitem_canonical[of t] by auto
  with Cons show ?case by simp
qed

lemma expand_variation_ok:
  "list_all canonical_turn conv \<Longrightarrow> \<exists>out s'. expand_variation chat s sf rf conv = (Inr out, s')"
  using extract_reference_values_ok[of conv rf "[]"] expand_turns_ok[of conv chat s sf]
  by (auto simp: expand_variation_def)

lemma expand_repeat_ok:
  "list_all canonical_turn conv \<Longrightarrow>
     \<exists>out s'. expand_repeat chat s sf rf conv n = (Inr out, s')"
proof (induction n arbitrary: s)
  case 0
  then show ?case by simp
next
  case (Suc n)
  from expand_variation_ok[OF Suc.prems, of chat s sf rf] obtain c s1 where
    1: "expand_variation chat s sf rf conv = (Inr c, s1)" by blast
  from Suc obtain cs s2 where 2: "expand_repeat chat s1 sf rf conv n = (Inr cs, s2)" by blast
  from 1 2 show ?case by simp
qed

lemma expand_repeat_nth:
  "expand_repeat chat s sf rf conv n = (Inr out, s') \<Longrightarrow>
     length out = n \<and>
     (\<forall>j<n. \<exists>s1 s2. expand_variation chat s1 sf rf conv = (Inr (out ! j), s2))"
proof (induction n arbitrary: s out)
  case 0
  then show ?case by simp
next
  case (Suc n)
  from Suc.prems obtain c s1 cs where
    1: "expand_variation chat s sf rf conv = (Inr c, s1)" and
    2: "expand_repeat chat s1 sf rf conv n = (Inr cs, s')" and
    3: "out = c # cs"
    by (auto split: prod.splits sum.splits)
  from Suc.IH[OF 2] have len: "length cs = n"
    and nth: "\<And>j. j < n \<Longrightarrow> \<exists>s1 s2. expand_variation chat s1 sf rf conv = (Inr (cs ! j), s2)"
    by auto
  show ?case
  proof (intro conjI allI impI)
    show "length out = Suc n" using 3 len by simp
  next
    fix j assume "j < Suc n"
    then show "\<exists>s1 s2. expand_variation chat s1 sf rf conv = (Inr (out ! j), s2)"
      using 1 3 nth by (cases j) auto
  qed
qed

lemma expand_conversations_ok:
  "list_all (list_all canonical_turn) convs \<Longrightarrow>
     \<exists>out s'. expand_conversations chat s sf rf n convs = (Inr out, s')"
proof (induction convs arbitrary: s)
  case Nil
  then show ?case by simp
next
  case (Cons conv convs)
  then obtain cs s1 where 1: "expand_repeat chat s sf rf conv n = (Inr cs, s1)"
    using expand_repeat_ok[of conv chat s sf rf n] by auto
  from Cons obtain rest s2 where 2: "expand_conversations chat s1 sf rf n convs = (Inr rest, s2)"
    by fastforce
  from 1 2 show ?case by simp
qed

lemma expand_conversations_nth:
  "expand_conversations chat s sf rf n convs = (Inr out, s') \<Longrightarrow>
     length out = length convs * n \<and>
     (\<forall>i<length convs. \<forall>j<n.
        \<exists>s1 s2. expand_variation chat s1 sf rf (convs ! i) = (Inr (out ! (i * n + j)), s2))"
proof (induction convs arbitrary: s out)
  case Nil
  then show ?case by simp
next
  case (Cons conv convs)
  from Cons.prems obtain cs s1 rest where
    1: "expand_repeat chat s sf rf conv n = (Inr cs, s1)" and
    2: "expand_conversations chat s1 sf rf n convs = (Inr rest, s')" and
    3: "out = cs @ rest"
    by (auto split: prod.splits sum.splits)
  from expand_repeat_nth[OF 1] have lcs: "length cs = n"
    and ncs: "\<And>j. j < n \<Longrightarrow> \<exists>s1 s2. expand_variation chat s1 sf rf conv = (Inr (cs ! j), s2)"
    by auto
  from Cons.IH[OF 2] have lrest: "length rest = length convs * n"
    and nrest: "\<And>i j. i < length convs \<Longrightarrow> j < n \<Longrightarrow>
        \<exists>s1 s2. expand_variation chat s1 sf rf (convs ! i) = (Inr (rest ! (i * n + j)), s2)"
    by auto
  show ?case
  proof (intro conjI allI impI)
    show "length out = length (conv # convs) * n" using 3 lcs lrest by simp
  next
    fix i j assume i: "i < length (conv # convs)" and j: "j < n"
    show "\<exists>s1 s2. expand_variation chat s1 sf rf ((conv # convs) ! i) = (Inr (out ! (i * n + j)), s2)"
    proof (cases i)
      case 0
      with ncs[OF j] 3 lcs j show ?thesis by (simp add: nth_append)
    next
      case (Suc i')
      with i have "i' < length convs" by simp
      from nrest[OF this j] obtain s1 s2 where
        "expand_variation chat s1 sf rf (convs ! i') = (Inr (rest ! (i' * n + j)), s2)" by blast
      moreover have "out ! (i * n + j) = rest ! (i' * n + j)"
        using 3 lcs Suc by (simp add: nth_append)
      ultimately show ?thesis using Suc by auto
    qed
  qed
qed



subsection \<open>The paraphrase engine\<close>




lemma paraphrase_text_generation_failure:
  assumes "fst (chat s [(''system'', Paraphrase_system),
             (''user'', Paraphrase_user tx refs (case q of None \<Rightarrow> is_question tx | Some b \<Rightarrow> b))])
           = Inl e"
  shows "fst (paraphrase_text chat s tx refs q) = tx"
  using assms by (auto simp: paraphrase_text_def Let_def split: prod.splits sum.splits)

lemma verify_paraphrase_failure:
  assumes "fst (chat s [(''system'', Verify_system), (''user'', Verify_user original p refs q)]) = Inl e"
  shows "fst (verify_paraphrase chat s original p refs q) = p"
  using assms by (auto simp: verify_paraphrase_def split: prod.splits sum.splits)





subsection \<open>Degradation and static fields\<close>

lemma expand_variation_turns:
  assumes "expand_variation chat s sf rf conv = (Inr out, s')"
  shows "length out = length conv \<and>
     (\<forall>k<length conv. \<exists>refs s1 s2. expand_turn chat s1 sf refs (conv ! k) = (Inr (out ! k), s2))"
proof -
  from assms obtain refs where "expand_turns chat s sf refs conv = (Inr out, s')"
    by (auto simp: expand_variation_def split: sum.splits)
  from expand_turns_nth[OF this] show ?thesis by blast
qed

lemma expand_turn_from:
  assumes "canonical_turn t" "expand_turn chat s sf refs t = (Inr t', s')"
  shows "getitem t' ''from'' = getitem t ''from''"
  using assms(1)
proof (cases rule: expand_turn_cases[where chat = chat and s = s and sf = sf and refs = refs])
  case (static src)
  with assms show ?thesis by simp
next
  case (dynamic src v)
  with assms show ?thesis by (auto simp: getitem_def)
qed


lemma expand_turn_failing:
  assumes "canonical_turn t" "expand_turn chat s sf refs t = (Inr t', s')"
    and "\<forall>s msgs. isl (fst (chat s msgs))"
  shows "getitem t' ''value'' = getitem t ''value''"
  using assms(1)
proof (cases rule: expand_turn_cases[where chat = chat and s = s and sf = sf and refs = refs])
  case (static src)
  with assms show ?thesis by simp
next
  case (dynamic src v)
  from assms(3) obtain e where
    "fst (chat s [(''system'', Paraphrase_system),
             (''user'', Paraphrase_user v refs (case Some (is_question v) of None \<Rightarrow> is_question v | Some b \<Rightarrow> b))])
           = Inl e"
    by (metis isl_def)
  from paraphrase_text_generation_failure[where chat = chat and s = s and tx = v and refs = refs
      and q = "Some (is_question v)", OF this]
  have "fst (paraphrase_text chat s v refs (Some (is_question v))) = v" .
  with dynamic assms show ?thesis by (auto simp: getitem_def)
qed

lemma expand_dataset_shape:
  assumes "list_all (list_all canonical_turn) conversations"
  shows "\<exists>out s'.
           expand_conversation_dataset chat s conversations N static_fields reference_fields = (Inr out, s')
         \<and> length out = length conversations * nat N
         \<and> (\<forall>i<length conversations. \<forall>j<nat N.
              length (out ! (i * nat N + j)) = length (conversations ! i)
            \<and> (\<forall>k<length (conversations ! i). \<exists>refs s1 s2.
                 expand_turn chat s1 (static_fields_or_default static_fields) refs (conversations ! i ! k)
                   = (Inr (out ! (i * nat N + j) ! k), s2)))"
proof -
  let ?sf = "static_fields_or_default static_fields"
  let ?rf = "reference_fields_or_default reference_fields"
  from expand_conversations_ok[OF assms, of chat s ?sf ?rf "nat N"] obtain out s' where
    r: "expand_conversations chat s ?sf ?rf (nat N) conversations = (Inr out, s')"
    by blast
  note nth = expand_conversations_nth[OF r]
  have "length (out ! (i * nat N + j)) = length (conversations ! i)
            \<and> (\<forall>k<length (conversations ! i). \<exists>refs s1 s2.
                 expand_turn chat s1 ?sf refs (conversations ! i ! k)
                   = (Inr (out ! (i * nat N + j) ! k), s2))"
    if "i < length conversations" "j < nat N" for i j
  proof -
    from nth that obtain s1 s2 where
      "expand_variation chat s1 ?sf ?rf (conversations ! i) = (Inr (out ! (i * nat N + j)), s2)"
      by blast
    from expand_variation_turns[OF this] show ?thesis .
  qed
  with r nth show ?thesis by (auto simp: expand_conversation_dataset_def)
qed


text \<open>
  Claim C2: when the backend raises on every call, \<open>expand_conversation_dataset\<close> still
  returns \<open>len(conversations) * N\<close> conversations, and every turn of every expanded
  conversation has the role and the text of the original turn at the same position;
  \<open>paraphrase_text\<close> returns its input and \<open>verify_paraphrase\<close> returns the unverified
  paraphrase.
\<close>

theorem graceful_degradation:
  assumes "\<forall>s msgs. isl (fst (chat s msgs))"
    and "list_all (list_all canonical_turn) conversations" and "0 < N"
  shows "(\<exists>out s'.
           expand_conversation_dataset chat s conversations N static_fields reference_fields = (Inr out, s')
         \<and> int (length out) = int (length conversations) * N
         \<and> (\<forall>i<length conversations. \<forall>j<nat N.
              length (out ! (i * nat N + j)) = length (conversations ! i)
            \<and> (\<forall>k<length (conversations ! i).
                 getitem (out ! (i * nat N + j) ! k) ''value'' = getitem (conversations ! i ! k) ''value''
               \<and> getitem (out ! (i * nat N + j) ! k) ''from'' = getitem (conversations ! i ! k) ''from'')))
       \<and> (\<forall>s tx refs q. fst (paraphrase_text chat s tx refs q) = tx)
       \<and> (\<forall>s original p refs q. fst (verify_paraphrase chat s original p refs q) = p)"
proof (intro conjI)
  from expand_dataset_shape[OF assms(2), of chat s N static_fields reference_fields]
  obtain out s' where
    r: "expand_conversation_dataset chat s conversations N static_fields reference_fields = (Inr out, s')"
    and len: "length out = length conversations * nat N"
    and shape: "\<And>i j. i < length conversations \<Longrightarrow> j < nat N \<Longrightarrow>
              length (out ! (i * nat N + j)) = length (conversations ! i)
            \<and> (\<forall>k<length (conversations ! i). \<exists>refs s1 s2.
                 expand_turn chat s1 (static_fields_or_default static_fields) refs (conversations ! i ! k)
                   = (Inr (out ! (i * nat N + j) ! k), s2))"
    by blast
  have turn: "getitem (out ! (i * nat N + j) ! k) ''value'' = getitem (conversations ! i ! k) ''value''
               \<and> getitem (out ! (i * nat N + j) ! k) ''from'' = getitem (conversations ! i ! k) ''from''"
    if "i < length conversations" "j < nat N" "k < length (conversations ! i)" for i j k
  proof -
    from that assms(2) have c: "canonical_turn (conversations ! i ! k)"
      by (simp add: list_all_length)
    from shape[OF that(1,2)] that(3) obtain refs s1 s2 where
      e: "expand_turn chat s1 (static_fields_or_default static_fields) refs (conversations ! i ! k)
                   = (Inr (out ! (i * nat N + j) ! k), s2)"
      by blast
    from expand_turn_failing[OF c e assms(1)] expand_turn_from[OF c e] show ?thesis by simp
  qed
  from assms(3) len have "int (length out) = int (length conversations) * N" by simp
  with r shape turn
  show "\<exists>out s'.
           expand_conversation_dataset chat s conversations N static_fields reference_fields = (Inr out, s')
         \<and> int (length out) = int (length conversations) * N
         \<and> (\<forall>i<length conversations. \<forall>j<nat N.
              length (out ! (i * nat N + j)) = length (conversations ! i)
            \<and> (\<forall>k<length (conversations ! i).
                 getitem (out ! (i * nat N + j) ! k) ''value'' = getitem (conversations ! i ! k) ''value''
               \<and> getitem (out ! (i * nat N + j) ! k) ''from'' = getitem (conversations ! i ! k) ''from''))"
    by blast
next
  show "\<forall>s tx refs q. fst (paraphrase_text chat s tx refs q) = tx"
  proof (intro allI)
    fix s tx refs q
    from assms(1) obtain e where
      "fst (chat s [(''system'', Paraphrase_system),
             (''user'', Paraphrase_user tx refs (case q of None \<Rightarrow> is_question tx | Some b \<Rightarrow> b))])
           = Inl e"
      by (metis isl_def)
    from paraphrase_text_generation_failure[where chat = chat and s = s and tx = tx and refs = refs
        and q = q, OF this]
    show "fst (paraphrase_text chat s tx refs q) = tx" .
  qed
next
  show "\<forall>s original p refs q. fst (verify_paraphrase chat s original p refs q) = p"
  proof (intro allI)
    fix s original p refs q
    from assms(1) obtain e where
      "fst (chat s [(''system'', Verify_system), (''user'', Verify_user original p refs q)]) = Inl e"
      by (metis isl_def)
    from verify_paraphrase_failure[where chat = chat, OF this]
    show "fst (verify_paraphrase chat s original p refs q) = p" .
  qed
qed

theorem graceful_degradation_witness:
  "(\<forall>s msgs. isl (fst (failing_backend s msgs)))
   \<and> list_all (list_all canonical_turn) example_batch \<and> (0::int) < 2
   \<and> (\<exists>out s'.
         expand_conversation_dataset failing_backend () example_batch 2 None None = (Inr out, s')
       \<and> int (length out) = int (length example_batch) * 2
       \<and> (\<forall>i<length example_batch. \<forall>j<nat 2.
            length (out ! (i * nat 2 + j)) = length (example_batch ! i)
          \<and> (\<forall>k<length (example_batch ! i).
               getitem (out ! (i * nat 2 + j) ! k) ''value'' = getitem (example_batch ! i ! k) ''value''
             \<and> getitem (out ! (i * nat 2 + j) ! k) ''from'' = getitem (example_batch ! i ! k) ''from'')))"
proof -
  have f: "\<forall>s msgs. isl (fst (failing_backend s msgs))"
    by (simp add: failing_backend_def)
  have wf: "list_all (list_all canonical_turn) example_batch"
    by (simp add: canonical_turn_def example_batch_def)
  have pos: "(0::int) < 2" by simp
  from f wf pos graceful_degradation[OF f wf pos, of "()" None None, THEN conjunct1]
  show ?thesis by (intro conjI)
qed


lemma gpt_turn_may_differ:
  "fst (expand_conversation_dataset (stub_backend ''Y is X, restated'') () example_batch 1
          (Some [(''human'', True), (''gpt'', False)]) None)
   = Inr [[[(''from'', ''human''), (''value'', ''What is X?'')],
           [(''from'', ''gpt''), (''value'', ''Y is X, restated.'')]]]"
  by code_simp



subsection \<open>The paired-turn view\<close>

lemma even_indices_step:
  "filter even [0 ..< Suc (Suc k)] = 0 # map (\<lambda>i. Suc (Suc i)) (filter even [0 ..< k])"
  by (induction k) auto

lemma pair_indices_step:
  "pair_indices (Suc (Suc n)) = 0 # map (\<lambda>i. Suc (Suc i)) (pair_indices n)"
proof (cases n)
  case 0
  then show ?thesis by (simp add: pair_indices_def)
next
  case (Suc m)
  then show ?thesis using even_indices_step[of m] by (simp add: pair_indices_def)
qed

lemma pair_row_shift: "pair_row (a # b # conv) (Suc (Suc i)) = pair_row conv i"
  by (simp add: pair_row_def cong: sum.case_cong if_cong)

lemma pair_rows_shift:
  "pair_rows (a # b # conv) (map (\<lambda>i. Suc (Suc i)) is) = pair_rows conv is"
  by (induction "is") (simp_all add: pair_row_shift cong: sum.case_cong)

lemma pair_row_head:
  assumes "canonical_turn a" "canonical_turn b"
  shows "pair_row (a # b # conv) 0 =
     Inr (if map_of a ''from'' = Some ''human'' \<and> map_of b ''from'' = Some ''gpt''
          then Some \<lparr>instruction = fixed_instruction, input_text = text_of a, output_text = text_of b\<rparr>
          else None)"
  using getitem_canonical[OF assms(1)] getitem_canonical[OF assms(2)]
  by (auto simp: pair_row_def text_of_def)

lemma pair_rows_paired_view:
  "list_all canonical_turn conv \<Longrightarrow>
     pair_rows conv (pair_indices (length conv)) = Inr (paired_view conv)"
proof (induction conv rule: adjacent_pairs.induct)
  case (1 a b rest)
  then have IH: "pair_rows rest (pair_indices (length rest)) = Inr (paired_view rest)"
    and ca: "canonical_turn a" and cb: "canonical_turn b" by simp_all
  have "pair_rows (a # b # rest) (pair_indices (length (a # b # rest))) =
          (case pair_row (a # b # rest) 0 of
             Inl e \<Rightarrow> Inl e
           | Inr r \<Rightarrow>
               (case pair_rows rest (pair_indices (length rest)) of
                  Inl e \<Rightarrow> Inl e
                | Inr rs \<Rightarrow> Inr ((case r of None \<Rightarrow> [] | Some x \<Rightarrow> [x]) @ rs)))"
    by (simp add: pair_indices_step pair_rows_shift cong: sum.case_cong)
  also have "\<dots> = Inr (paired_view (a # b # rest))"
    by (simp add: pair_row_head[OF ca cb] IH paired_view_def)
  finally show ?case .
qed (simp_all add: pair_indices_def paired_view_def)

lemma convert_paired_view:
  "list_all (list_all canonical_turn) convs \<Longrightarrow>
     convert_conversations_to_dataframe convs = Inr (concat (map paired_view convs))"
  by (induction convs) (simp_all add: pair_rows_paired_view)


lemma trailing_turn_rows:
  "convert_conversations_to_dataframe [trailing_turn_example] =
     Inr [\<lparr>instruction = fixed_instruction, input_text = ''Q1'', output_text = ''A1''\<rparr>]"
  by (simp add: trailing_turn_example_def pair_indices_def pair_row_def getitem_def)

text \<open>
  Claim C8: \<open>convert_conversations_to_dataframe\<close> gives exactly the rows of the
  non-overlapping adjacent pairs whose first role is \<open>human\<close> and whose second is \<open>gpt\<close>;
  other pairs and a trailing unpaired turn give no row. The conversation
  \<open>[{human, Q1}, {gpt, A1}, {human, Q2}]\<close> gives the single row pairing Q1 with A1.
\<close>

theorem paired_view_filtering:
  assumes "list_all (list_all canonical_turn) convs"
  shows "convert_conversations_to_dataframe convs = Inr (concat (map paired_view convs))
       \<and> convert_conversations_to_dataframe [trailing_turn_example] =
           Inr [\<lparr>instruction = fixed_instruction, input_text = ''Q1'', output_text = ''A1''\<rparr>]"
  using convert_paired_view[OF assms] trailing_turn_rows by simp

theorem paired_view_filtering_witness:
  "list_all (list_all canonical_turn) example_batch
   \<and> convert_conversations_to_dataframe example_batch = Inr (concat (map paired_view example_batch))"
proof -
  have wf: "list_all (list_all canonical_turn) example_batch"
    by (simp add: canonical_turn_def example_batch_def)
  from wf paired_view_filtering[OF wf, THEN conjunct1] show ?thesis by (intro conjI)
qed

subsection \<open>The conversation format validator\<close>

lemma normalize_from_key_other: "k \<noteq> ''from'' \<Longrightarrow> map_of (normalize_from_key i d) k = map_of d k"
  by (simp add: normalize_from_key_def update_conv' split: option.splits)

lemma normalize_value_key_other:
  "normalize_value_key i d = Inr d2 \<Longrightarrow> k \<noteq> ''value'' \<Longrightarrow> map_of d2 k = map_of d k"
  by (auto simp: normalize_value_key_def update_conv' split: option.splits if_splits)

lemma normalize_value_key_value:
  "normalize_value_key i d = Inr d2 \<Longrightarrow> map_of d2 ''value'' \<noteq> None"
  by (auto simp: normalize_value_key_def update_conv' split: option.splits if_splits)

lemma normalize_from_value_other:
  "normalize_from_value d = Inr d3 \<Longrightarrow> k \<noteq> ''from'' \<Longrightarrow> map_of d3 k = map_of d k"
  by (auto simp: normalize_from_value_def update_conv' split: option.splits pyval.splits if_splits)

lemma ensure_role_other: "k \<noteq> ''from'' \<Longrightarrow> map_of (ensure_role i d) k = map_of d k"
  by (simp add: ensure_role_def update_conv')

lemma ensure_role_from:
  "map_of (ensure_role i d) ''from'' = Some (PStr ''human'') \<or>
   map_of (ensure_role i d) ''from'' = Some (PStr ''gpt'')"
  by (auto simp: ensure_role_def update_conv' positional_role_def)

lemma validate_turn_shape:
  assumes "validate_turn i t = Inr t'"
  shows "\<exists>d d'. t = PDict d \<and> t' = PDict d'
          \<and> (map_of d' ''from'' = Some (PStr ''human'') \<or> map_of d' ''from'' = Some (PStr ''gpt''))
          \<and> map_of d' ''value'' \<noteq> None
          \<and> (\<forall>k. k \<noteq> ''from'' \<longrightarrow> k \<noteq> ''value'' \<longrightarrow> map_of d' k = map_of d k)"
proof -
  from assms obtain d d2 d3 where
    t: "t = PDict d" and
    2: "normalize_value_key i (normalize_from_key i d) = Inr d2" and
    3: "normalize_from_value d2 = Inr d3" and
    t': "t' = PDict (ensure_role i d3)"
    by (auto simp: validate_turn_def split: pyval.splits sum.splits)
  have "map_of (ensure_role i d3) ''value'' \<noteq> None"
    using normalize_value_key_value[OF 2] normalize_from_value_other[OF 3, of "''value''"]
    by (simp add: ensure_role_other)
  moreover have "map_of (ensure_role i d3) k = map_of d k" if "k \<noteq> ''from''" "k \<noteq> ''value''" for k
    using that normalize_value_key_other[OF 2, of k] normalize_from_value_other[OF 3, of k]
    by (simp add: ensure_role_other normalize_from_key_other)
  ultimately show ?thesis using t t' ensure_role_from[of i d3] by blast
qed

lemma validate_turns_nth:
  "validate_turns i ts = Inr ts' \<Longrightarrow>
     length ts' = length ts \<and> (\<forall>n<length ts. validate_turn (i + n) (ts ! n) = Inr (ts' ! n))"
proof (induction ts arbitrary: i ts')
  case Nil
  then show ?case by simp
next
  case (Cons t ts)
  from Cons.prems obtain t' rest where
    1: "validate_turn i t = Inr t'" and 2: "validate_turns (Suc i) ts = Inr rest" and 3: "ts' = t' # rest"
    by (auto split: sum.splits)
  from Cons.IH[OF 2] have len: "length rest = length ts"
    and nth: "\<And>n. n < length ts \<Longrightarrow> validate_turn (Suc i + n) (ts ! n) = Inr (rest ! n)" by auto
  show ?case
  proof (intro conjI allI impI)
    show "length ts' = length (t # ts)" using 3 len by simp
  next
    fix n assume "n < length (t # ts)"
    then show "validate_turn (i + n) ((t # ts) ! n) = Inr (ts' ! n)"
      using 1 3 nth by (cases n) auto
  qed
qed

lemma validate_conversation_nth:
  assumes "validate_conversation_format conversation = Inr out"
  shows "\<exists>ts ts'. conversation = PList ts \<and> out = PList ts' \<and> length ts' = length ts
           \<and> (\<forall>n<length ts. validate_turn n (ts ! n) = Inr (ts' ! n))"
proof -
  from assms obtain ts ts' where
    c: "conversation = PList ts" and v: "validate_turns 0 ts = Inr ts'" and o: "out = PList ts'"
    by (auto simp: validate_conversation_format_def split: pyval.splits sum.splits)
  from validate_turns_nth[OF v] c o show ?thesis by simp
qed

lemma alias_example_validated:
  "validate_conversation_format alias_example =
     Inr (PList [PDict [(''role'', PStr ''assistant''), (''content'', PStr ''X''),
                        (''from'', PStr ''gpt''), (''value'', PStr ''X'')]])"
  by code_simp

text \<open>
  Claim C4 says that each turn returned by the validator has exactly the two canonical
  keys, no alias key remaining. The validator adds and normalises the keys 'from' and
  'value' and removes nothing: each returned turn has 'from' equal to \<open>human\<close> or \<open>gpt\<close>
  and has 'value', and every other key of the input turn is kept with its value. The turn
  \<open>{"role": "assistant", "content": "X"}\<close> becomes
  \<open>{"role": "assistant", "content": "X", "from": "gpt", "value": "X"}\<close>.
\<close>

theorem validated_turns_keys:
  assumes "validate_conversation_format conversation = Inr out"
  shows "(\<exists>ts ts'. conversation = PList ts \<and> out = PList ts' \<and> length ts' = length ts
           \<and> (\<forall>n<length ts. \<exists>d d'. ts ! n = PDict d \<and> ts' ! n = PDict d'
                \<and> (map_of d' ''from'' = Some (PStr ''human'') \<or> map_of d' ''from'' = Some (PStr ''gpt''))
                \<and> map_of d' ''value'' \<noteq> None
                \<and> (\<forall>k. k \<noteq> ''from'' \<longrightarrow> k \<noteq> ''value'' \<longrightarrow> map_of d' k = map_of d k)))
       \<and> validate_conversation_format alias_example =
           Inr (PList [PDict [(''role'', PStr ''assistant''), (''content'', PStr ''X''),
                              (''from'', PStr ''gpt''), (''value'', PStr ''X'')]])"
proof (intro conjI)
  from validate_conversation_nth[OF assms] obtain ts ts' where
    c: "conversation = PList ts" "out = PList ts'" "length ts' = length ts" and
    n: "\<And>n. n < length ts \<Longrightarrow> validate_turn n (ts ! n) = Inr (ts' ! n)" by blast
  have "\<exists>d d'. ts ! n = PDict d \<and> ts' ! n = PDict d'
                \<and> (map_of d' ''from'' = Some (PStr ''human'') \<or> map_of d' ''from'' = Some (PStr ''gpt''))
                \<and> map_of d' ''value'' \<noteq> None
                \<and> (\<forall>k. k \<noteq> ''from'' \<longrightarrow> k \<noteq> ''value'' \<longrightarrow> map_of d' k = map_of d k)"
    if "n < length ts" for n
    using validate_turn_shape[OF n[OF that]] .
  with c show "\<exists>ts ts'. conversation = PList ts \<and> out = PList ts' \<and> length ts' = length ts
           \<and> (\<forall>n<length ts. \<exists>d d'. ts ! n = PDict d \<and> ts' ! n = PDict d'
                \<and> (map_of d' ''from'' = Some (PStr ''human'') \<or> map_of d' ''from'' = Some (PStr ''gpt''))
                \<and> map_of d' ''value'' \<noteq> None
                \<and> (\<forall>k. k \<noteq> ''from'' \<longrightarrow> k \<noteq> ''value'' \<longrightarrow> map_of d' k = map_of d k))"
    by blast
next
  show "validate_conversation_format alias_example =
           Inr (PList [PDict [(''role'', PStr ''assistant''), (''content'', PStr ''X''),
                              (''from'', PStr ''gpt''), (''value'', PStr ''X'')]])"
    by (rule alias_example_validated)
qed

theorem alias_keys_remain_counterexample:
  "validate_conversation_format alias_example =
     Inr (PList [PDict [(''role'', PStr ''assistant''), (''content'', PStr ''X''),
                        (''from'', PStr ''gpt''), (''value'', PStr ''X'')]])
   \<and> validate_conversation_format alias_example
       \<noteq> Inr (PList [PDict [(''from'', PStr ''gpt''), (''value'', PStr ''X'')]])"
  by (simp add: alias_example_validated)


lemma lower_canonical: "py_lower ''human'' = ''human''" "py_lower ''gpt'' = ''gpt''"
  by code_simp+

lemma resolved_role_canonical:
  "resolved_role i ''human'' = ''human''" "resolved_role i ''gpt'' = ''gpt''"
  by (simp_all add: resolved_role_def lower_canonical)

lemma resolve_from:
  assumes "map_of d2 ''from'' = Some (PStr f)" "normalize_from_value d2 = Inr d3"
  shows "map_of (ensure_role i d3) ''from'' = Some (PStr (resolved_role i f))"
proof -
  consider (gpt) "py_lower f \<in> set [''assistant'', ''ai'', ''bot'', ''claude'']"
    | (human) "py_lower f \<notin> set [''assistant'', ''ai'', ''bot'', ''claude'']"
        "py_lower f \<in> set [''user'', ''human'', ''person'']"
    | (other) "py_lower f \<notin> set [''assistant'', ''ai'', ''bot'', ''claude'']"
        "py_lower f \<notin> set [''user'', ''human'', ''person'']"
    by blast
  then show ?thesis
  proof cases
    case gpt
    with assms have "d3 = AList.update ''from'' (PStr ''gpt'') d2"
      by (simp add: normalize_from_value_def)
    with gpt show ?thesis by (simp add: ensure_role_def update_conv' resolved_role_def)
  next
    case human
    with assms have "d3 = AList.update ''from'' (PStr ''human'') d2"
      by (simp add: normalize_from_value_def)
    with human show ?thesis by (simp add: ensure_role_def update_conv' resolved_role_def)
  next
    case other
    with assms have d3: "d3 = d2" by (simp add: normalize_from_value_def)
    have "f \<noteq> ''human''" using other(2) by (auto simp: lower_canonical)
    with other d3 assms(1) show ?thesis
      by (auto simp: ensure_role_def update_conv' resolved_role_def)
  qed
qed

lemma validate_turn_role:
  assumes "validate_turn i (PDict d) = Inr (PDict d')"
  shows "map_of d' ''from'' =
     (case map_of d ''from'' of
        Some v \<Rightarrow> (case v of PStr f \<Rightarrow> Some (PStr (resolved_role i f)) | _ \<Rightarrow> None)
      | None \<Rightarrow>
          (case map_of d ''role'' of
             Some r \<Rightarrow> Some (PStr (alias_role r))
           | None \<Rightarrow>
               (case map_of d ''speaker'' of
                  Some sp \<Rightarrow> Some (PStr (alias_role sp))
                | None \<Rightarrow> Some (PStr (positional_role i)))))"
proof -
  from assms obtain d2 d3 where
    2: "normalize_value_key i (normalize_from_key i d) = Inr d2" and
    3: "normalize_from_value d2 = Inr d3" and
    d': "d' = ensure_role i d3"
    by (auto simp: validate_turn_def split: sum.splits)
  have d2: "map_of d2 ''from'' = map_of (normalize_from_key i d) ''from''"
    using normalize_value_key_other[OF 2, of "''from''"] by simp
  show ?thesis
  proof (cases "map_of d ''from''")
    case None
    then obtain f where f: "map_of d2 ''from'' = Some (PStr f)"
      and r: "f = (case map_of d ''role'' of
             Some r \<Rightarrow> alias_role r
           | None \<Rightarrow>
               (case map_of d ''speaker'' of
                  Some sp \<Rightarrow> alias_role sp
                | None \<Rightarrow> positional_role i))"
      by (simp add: d2 normalize_from_key_def update_conv' split: option.splits)
    have "f = ''human'' \<or> f = ''gpt''"
      using r by (auto simp: alias_role_def positional_role_def split: option.splits)
    then have "resolved_role i f = f" using resolved_role_canonical by auto
    with resolve_from[OF f 3, of i] d' r None show ?thesis
      by (simp split: option.splits)
  next
    case (Some v)
    then have v: "map_of d2 ''from'' = Some v" by (simp add: d2 normalize_from_key_def)
    with 3 obtain f where f: "v = PStr f"
      by (auto simp: normalize_from_value_def split: pyval.splits)
    with resolve_from[OF v[unfolded f] 3, of i] d' Some show ?thesis by simp
  qed
qed


lemma mixed_example_validated:
  "validate_conversation_format (PList mixed_example) = Inr (PList mixed_example_validated_turns)"
  by code_simp

text \<open>
  Claim C5 says that the values of the alias keys 'role' and 'speaker' are mapped
  case-insensitively with a positional fallback. In the code that mapping applies to the
  key 'from'. For an accepted turn at position \<open>n\<close>: with none of 'from', 'role', 'speaker'
  the role is the positional default; with 'from' absent and 'role' (or else 'speaker')
  present the role is \<open>human\<close> when the alias value is exactly \<open>user\<close> or \<open>human\<close> and \<open>gpt\<close>
  otherwise; with 'from' present its value is mapped case-insensitively
  (assistant, ai, bot, claude to \<open>gpt\<close>; user, human, person to \<open>human\<close>), the exact value
  \<open>gpt\<close> stays, and any other value gets the positional default.
\<close>

theorem role_resolution:
  assumes "validate_conversation_format (PList ts) = Inr (PList ts')" and "n < length ts"
  shows "\<exists>d d'. ts ! n = PDict d \<and> ts' ! n = PDict d'
     \<and> (map_of d ''from'' = None \<longrightarrow> map_of d ''role'' = None \<longrightarrow> map_of d ''speaker'' = None
          \<longrightarrow> map_of d' ''from'' = Some (PStr (if even n then ''human'' else ''gpt'')))
     \<and> (\<forall>r. map_of d ''from'' = None \<longrightarrow> map_of d ''role'' = Some r
          \<longrightarrow> map_of d' ''from'' =
                Some (PStr (if r = PStr ''user'' \<or> r = PStr ''human'' then ''human'' else ''gpt'')))
     \<and> (\<forall>sp. map_of d ''from'' = None \<longrightarrow> map_of d ''role'' = None \<longrightarrow> map_of d ''speaker'' = Some sp
          \<longrightarrow> map_of d' ''from'' =
                Some (PStr (if sp = PStr ''user'' \<or> sp = PStr ''human'' then ''human'' else ''gpt'')))
     \<and> (\<forall>f. map_of d ''from'' = Some (PStr f)
          \<longrightarrow> map_of d' ''from'' =
                Some (PStr (if py_lower f \<in> {''assistant'', ''ai'', ''bot'', ''claude''} then ''gpt''
                            else if py_lower f \<in> {''user'', ''human'', ''person''} then ''human''
                            else if f = ''gpt'' then ''gpt''
                            else if even n then ''human'' else ''gpt'')))"
proof -
  from validate_conversation_nth[OF assms(1)] assms(2)
  have len: "length ts' = length ts" and v: "validate_turn n (ts ! n) = Inr (ts' ! n)" by auto
  from validate_turn_shape[OF v] obtain d d' where
    d: "ts ! n = PDict d" "ts' ! n = PDict d'" by blast
  note role = validate_turn_role[OF v[unfolded d]]
  have 1: "map_of d' ''from'' = Some (PStr (if even n then ''human'' else ''gpt''))"
    if "map_of d ''from'' = None" "map_of d ''role'' = None" "map_of d ''speaker'' = None"
    using role that by (simp add: positional_role_def even_iff_mod_2_eq_zero)
  have 2: "map_of d' ''from'' =
                Some (PStr (if r = PStr ''user'' \<or> r = PStr ''human'' then ''human'' else ''gpt''))"
    if "map_of d ''from'' = None" "map_of d ''role'' = Some r" for r
    using role that by (simp add: alias_role_def)
  have 3: "map_of d' ''from'' =
                Some (PStr (if sp = PStr ''user'' \<or> sp = PStr ''human'' then ''human'' else ''gpt''))"
    if "map_of d ''from'' = None" "map_of d ''role'' = None" "map_of d ''speaker'' = Some sp" for sp
    using role that by (simp add: alias_role_def)
  have 4: "map_of d' ''from'' =
                Some (PStr (if py_lower f \<in> {''assistant'', ''ai'', ''bot'', ''claude''} then ''gpt''
                            else if py_lower f \<in> {''user'', ''human'', ''person''} then ''human''
                            else if f = ''gpt'' then ''gpt''
                            else if even n then ''human'' else ''gpt''))"
    if "map_of d ''from'' = Some (PStr f)" for f
    using role that by (simp add: resolved_role_def positional_role_def even_iff_mod_2_eq_zero)
  show ?thesis
  proof (intro exI conjI allI impI)
    show "ts ! n = PDict d" by fact
    show "ts' ! n = PDict d'" by fact
  qed (use 1 2 3 4 in auto)
qed

theorem role_resolution_witness:
  "validate_conversation_format (PList mixed_example) = Inr (PList mixed_example_validated_turns)
   \<and> (1::nat) < length mixed_example
   \<and> (\<exists>d d'. mixed_example ! (1::nat) = PDict d \<and> mixed_example_validated_turns ! (1::nat) = PDict d'
     \<and> (map_of d ''from'' = None \<longrightarrow> map_of d ''role'' = None \<longrightarrow> map_of d ''speaker'' = None
          \<longrightarrow> map_of d' ''from'' = Some (PStr (if even (1::nat) then ''human'' else ''gpt'')))
     \<and> (\<forall>r. map_of d ''from'' = None \<longrightarrow> map_of d ''role'' = Some r
          \<longrightarrow> map_of d' ''from'' =
                Some (PStr (if r = PStr ''user'' \<or> r = PStr ''human'' then ''human'' else ''gpt'')))
     \<and> (\<forall>sp. map_of d ''from'' = None \<longrightarrow> map_of d ''role'' = None \<longrightarrow> map_of d ''speaker'' = Some sp
          \<longrightarrow> map_of d' ''from'' =
                Some (PStr (if sp = PStr ''user'' \<or> sp = PStr ''human'' then ''human'' else ''gpt'')))
     \<and> (\<forall>f. map_of d ''from'' = Some (PStr f)
          \<longrightarrow> map_of d' ''from'' =
                Some (PStr (if py_lower f \<in> {''assistant'', ''ai'', ''bot'', ''claude''} then ''gpt''
                            else if py_lower f \<in> {''user'', ''human'', ''person''} then ''human''
                            else if f = ''gpt'' then ''gpt''
                            else if even (1::nat) then ''human'' else ''gpt''))))"
proof -
  have n: "(1::nat) < length mixed_example" by (simp add: mixed_example_def)
  from mixed_example_validated n role_resolution[OF mixed_example_validated n]
  show ?thesis by (intro conjI)
qed

theorem validated_turns_keys_witness:
  "validate_conversation_format (PList mixed_example) = Inr (PList mixed_example_validated_turns)
   \<and> (\<exists>ts ts'. PList mixed_example = PList ts
        \<and> PList mixed_example_validated_turns = PList ts'
        \<and> length ts' = length ts
        \<and> (\<forall>n<length ts. \<exists>d d'. ts ! n = PDict d \<and> ts' ! n = PDict d'
                \<and> (map_of d' ''from'' = Some (PStr ''human'') \<or> map_of d' ''from'' = Some (PStr ''gpt''))
                \<and> map_of d' ''value'' \<noteq> None
                \<and> (\<forall>k. k \<noteq> ''from'' \<longrightarrow> k \<noteq> ''value'' \<longrightarrow> map_of d' k = map_of d k)))"
  using mixed_example_validated validated_turns_keys[OF mixed_example_validated, THEN conjunct1]
  by (intro conjI)

theorem role_alias_counterexample:
  "validate_conversation_format (PList [PDict [(''role'', PStr ''person''), (''value'', PStr ''x'')]]) =
     Inr (PList [PDict [(''role'', PStr ''person''), (''value'', PStr ''x''), (''from'', PStr ''gpt'')]])"
  by code_simp

subsection \<open>Line-delimited JSON round trip\<close>






lemma skip_ws_keep: "\<not> is_json_ws c \<Longrightarrow> skip_ws (c # s) = c # s"
  by (simp add: skip_ws_def)


lemma not_ws: "\<not> is_json_ws dquote" "\<not> is_json_ws (CHR ''{'')" "\<not> is_json_ws (CHR ''}'')"
  "\<not> is_json_ws (CHR ''['')" "\<not> is_json_ws (CHR '']'')" "\<not> is_json_ws (CHR '','')"
  "\<not> is_json_ws (CHR '':'')"
  by (simp_all add: is_json_ws_def dquote_def)






lemma dumps_turn_alt:
  "dumps_turn t = CHR ''{'' # join '', '' (map encode_member t) @ ''}''"
  by (simp add: dumps_turn_def)





lemma skip_ws_dumps_turn: "skip_ws (dumps_turn t @ s) = dumps_turn t @ s"
  by (simp add: dumps_turn_alt skip_ws_keep not_ws)



















subsection \<open>chunk_text\<close>

lemma find_boundary_cases:
  "find_boundary content start e bs = e \<or> start < find_boundary content start e bs"
  by (induction bs) (auto simp: Let_def)

lemma rfind_empty_window:
  "py_index b (length s) < py_index a (length s) + length sub \<Longrightarrow> py_rfind s sub a b = -1"
  by (simp add: py_rfind_def Let_def)

lemma find_boundary_negative_start:
  assumes "int (length content) > cs" "- cs \<le> st" "st < -1"
  shows "find_boundary content st (st + cs) boundaries = 1"
proof -
  have "py_index (st + cs) (length content) = nat (st + cs)"
    using assms by (auto simp: py_index_def)
  moreover have "py_index st (length content) = nat (max 0 (st + int (length content)))"
    using assms by (auto simp: py_index_def)
  ultimately have "py_rfind content [nl, nl] st (st + cs) = -1"
    using assms by (intro rfind_empty_window) auto
  then show ?thesis using assms by (simp add: boundaries_def Let_def)
qed

lemma chunk_loop_stuck:
  assumes "int (length content) > cs" "cs > ov" "ov \<ge> 3" "- cs \<le> st" "st < -1"
  shows "chunk_loop content cs ov st chunks = None"
proof -
  let ?P = "\<lambda>(c::string) (cs::int) (ov::int) (st::int) (ch::string list) (y::string list).
              \<not> (int (length c) > cs \<and> cs > ov \<and> ov \<ge> 3 \<and> - cs \<le> st \<and> st < -1)"
  have h: "?P c cs ov st ch y" if "chunk_loop c cs ov st ch = Some y" for c cs ov st ch y
  proof (rule chunk_loop.raw_induct[where P = ?P, OF _ that], goal_cases)
    case (1 f c cs ov st ch y)
    show ?case
    proof
      assume a: "int (length c) > cs \<and> cs > ov \<and> ov \<ge> 3 \<and> - cs \<le> st \<and> st < -1"
      then have fb: "find_boundary c st (st + cs) boundaries = 1"
        by (intro find_boundary_negative_start) auto
      with a 1(2) have "f c cs ov (1 - ov) (ch @ [py_slice c st 1]) = Some y"
        by (simp add: Let_def)
      from 1(1)[OF this] a show False by simp
    qed
  qed
  show ?thesis
  proof (cases "chunk_loop content cs ov st chunks")
    case None
    then show ?thesis .
  next
    case (Some y)
    from h[OF this] assms show ?thesis by simp
  qed
qed

lemma chunk_text_early_boundary:
  assumes "int (length content) > cs" "cs > ov" "0 < cs"
    and "find_boundary content 0 cs boundaries < ov - 1"
  shows "chunk_text content cs ov = None"
proof -
  let ?e = "find_boundary content 0 cs boundaries"
  from find_boundary_cases[of content 0 cs boundaries] assms have e: "0 < ?e" by auto
  from assms have ne: "content \<noteq> []" by auto
  have "chunk_loop content cs ov 0 [] =
          chunk_loop content cs ov (?e - ov) ([] @ [py_slice content 0 ?e])"
    using assms ne by (subst chunk_loop.simps) (simp add: Let_def)
  also have "\<dots> = None"
    using assms e by (intro chunk_loop_stuck) auto
  finally show ?thesis using assms by (simp add: chunk_text_def)
qed


lemma rfind_down_last:
  assumes "lo \<le> p" "p < lo + k" "take (length sub) (drop p s) = sub"
    and "\<And>i. p < i \<Longrightarrow> i < lo + k \<Longrightarrow> take (length sub) (drop i s) \<noteq> sub"
  shows "rfind_down s sub lo k = int p"
  using assms
proof (induction k)
  case 0
  then show ?case by simp
next
  case (Suc k)
  show ?case
  proof (cases "p = lo + k")
    case True
    with Suc.prems show ?thesis by simp
  next
    case False
    with Suc.prems have "p < lo + k" by simp
    moreover have "take (length sub) (drop (lo + k) s) \<noteq> sub"
      using Suc.prems(4)[of "lo + k"] \<open>p < lo + k\<close> by simp
    ultimately show ?thesis using Suc by simp
  qed
qed

lemma titled_text_no_later_break:
  assumes "1 < i"
  shows "take 2 (drop i titled_text) \<noteq> [nl, nl]"
proof
  assume eq: "take 2 (drop i titled_text) = [nl, nl]"
  from assms obtain j where i: "i = Suc (Suc j)"
    by (metis One_nat_def Suc_lessE less_Suc_eq_0_disj not_less_eq)
  have x: "CHR ''x'' \<noteq> nl" by (simp add: nl_def)
  show False
  proof (cases j)
    case 0
    with eq i x show False by (simp add: titled_text_def)
  next
    case (Suc m)
    with i have "drop i titled_text = replicate (2000 - m) (CHR ''x'')"
      by (simp add: titled_text_def)
    with eq have "nl \<in> set (replicate (min 2 (2000 - m)) (CHR ''x''))"
      by (metis list.set_intros(1) take_replicate)
    with x show False by auto
  qed
qed

lemma titled_text_boundary: "find_boundary titled_text 0 2000 boundaries = 3"
proof -
  have len: "length titled_text = 2003" by (simp add: titled_text_def)
  have "rfind_down titled_text [nl, nl] 0 1999 = int 1"
  proof (rule rfind_down_last)
    show "take (length [nl, nl]) (drop 1 titled_text) = [nl, nl]"
      by (simp add: titled_text_def)
    show "take (length [nl, nl]) (drop i titled_text) \<noteq> [nl, nl]" if "1 < i" for i
      using titled_text_no_later_break[OF that] by (simp add: numeral_2_eq_2)
  qed simp_all
  then have "py_rfind titled_text [nl, nl] 0 2000 = 1"
    by (simp add: py_rfind_def py_index_def len)
  then show ?thesis by (simp add: boundaries_def)
qed

text \<open>
  Claim C10 says that \<open>chunk_text\<close> terminates for every text whenever
  \<open>chunk_size > overlap > 0\<close>, in particular for the defaults 2000 and 200. The loop
  sets \<open>start = end - overlap\<close> with no check that \<open>start\<close> grows: when the last
  boundary of the window lies within the first \<open>overlap\<close> characters, \<open>start\<close> becomes
  negative, every later \<open>rfind\<close> searches an empty window and returns \<open>-1\<close>, which
  is greater than \<open>start\<close>, and the loop repeats the state \<open>start = 1 - overlap\<close> for
  ever. With the defaults this happens on a text of 2003 characters.
\<close>

theorem chunk_text_default_hangs: "chunk_text titled_text 2000 200 = None"
  by (rule chunk_text_early_boundary) (simp_all add: titled_text_boundary, simp add: titled_text_def)

end
